theory Spec2Isabelle
  imports Main "HOL-Library.Sublist" "HOL-Library.AList"
begin

section \<open>Python string primitives\<close>

text \<open>
  A Python \<open>str\<close> is modelled as a \<open>string\<close>; every \<open>char\<close> stands for the code
  point of the same number (0 to 255).  \<open>is_space\<close> is \<open>str.isspace\<close> on one character,
  which is also what \<open>str.strip\<close> removes and what \<open>\s\<close> matches in a \<open>str\<close> pattern;
  \<open>is_digit\<close> is \<open>\d\<close>.
\<close>

definition is_space :: "char \<Rightarrow> bool" where
  "is_space c \<longleftrightarrow>
     c = CHR 0x09 \<or> c = CHR 0x0A \<or> c = CHR 0x0B \<or> c = CHR 0x0C \<or> c = CHR 0x0D \<or>
     c = CHR 0x1C \<or> c = CHR 0x1D \<or> c = CHR 0x1E \<or> c = CHR 0x1F \<or> c = CHR 0x20 \<or>
     c = CHR 0x85 \<or> c = CHR 0xA0"

definition is_digit :: "char \<Rightarrow> bool" where
  "is_digit c \<longleftrightarrow> c \<in> set ''0123456789''"

definition lstrip :: "string \<Rightarrow> string" where
  "lstrip s = dropWhile is_space s"

definition rstrip :: "string \<Rightarrow> string" where
  "rstrip s = rev (dropWhile is_space (rev s))"

definition strip :: "string \<Rightarrow> string" where
  "strip s = lstrip (rstrip s)"

definition startswith :: "string \<Rightarrow> string \<Rightarrow> bool" where
  "startswith s p = prefix p s"

text \<open>\<open>s.replace(old, new)\<close>: the occurrences of \<open>old\<close> are replaced from the left,
  without overlap; an empty \<open>old\<close> matches before every character and at the end.\<close>

function str_replace :: "string \<Rightarrow> string \<Rightarrow> string \<Rightarrow> string" where
  "str_replace old new [] = (if old = [] then new else [])"
| "str_replace old new (c # cs) =
     (if old = [] then new @ c # str_replace old new cs
      else if prefix old (c # cs) then new @ str_replace old new (drop (length old) (c # cs))
      else c # str_replace old new cs)"
  by pat_completeness auto
termination
  by (relation "measure (\<lambda>(old, new, s). length s)") (auto simp: Suc_le_eq)

text \<open>\<open>s.split(sep)\<close> for a one-character separator, and \<open>sep.join(xs)\<close>.\<close>

fun split_on :: "char \<Rightarrow> string \<Rightarrow> string list" where
  "split_on sep [] = [[]]"
| "split_on sep (c # cs) =
     (if c = sep then [] # split_on sep cs
      else (case split_on sep cs of
              [] \<Rightarrow> [[c]]
            | l # ls \<Rightarrow> (c # l) # ls))"

fun join :: "string \<Rightarrow> string list \<Rightarrow> string" where
  "join sep [] = []"
| "join sep [x] = x"
| "join sep (x # y # ys) = x @ sep @ join sep (y # ys)"

text \<open>\<open>str(n)\<close> for a natural number, as an f-string prints it.\<close>

definition digit_char :: "nat \<Rightarrow> char" where
  "digit_char d = ''0123456789'' ! d"

function str_of_nat :: "nat \<Rightarrow> string" where
  "str_of_nat n = (if n < 10 then [digit_char n] else str_of_nat (n div 10) @ [digit_char (n mod 10)])"
  by pat_completeness auto
termination
  by (relation "measure id") auto

declare str_of_nat.simps [simp del]

text \<open>\<open>html.escape(s, quote)\<close> of the standard library: \<open>&\<close>, \<open><\<close> and \<open>>\<close> always,
  the two quote characters when \<open>quote\<close> is set (the default).\<close>

definition escape_char :: "bool \<Rightarrow> char \<Rightarrow> string" where
  "escape_char quote c =
     (if c = CHR ''&'' then ''&amp;''
      else if c = CHR ''<'' then ''&lt;''
      else if c = CHR ''>'' then ''&gt;''
      else if quote \<and> c = CHR 0x22 then ''&quot;''
      else if quote \<and> c = CHR 0x27 then ''&#x27;''
      else [c])"

definition html_escape :: "bool \<Rightarrow> string \<Rightarrow> string" where
  "html_escape quote s = concat (map (escape_char quote) s)"

section \<open>Regular expressions\<close>

text \<open>
  A matcher is one pattern tried at one position: it gets the character before the
  position (for a lookbehind) and the text from the position on, and returns the groups
  and the text after the match.  Every pattern of the program has a single way to match
  at a position: each repetition \<open>[^x]+\<close> is followed by \<open>x\<close>, so it can only stop at
  the first \<open>x\<close>, and backtracking into it cannot find a second match.
\<close>

type_synonym 'g matcher = "char option \<Rightarrow> string \<Rightarrow> ('g \<times> string) option"

text \<open>\<open>re.sub(pattern, func, text)\<close>: scan from the left; at a match call \<open>func\<close> (which
  may change the state \<open>'s\<close>) and go on after the match; otherwise copy one character.
  After an empty match the scan advances by one character.\<close>

function re_sub :: "'g matcher \<Rightarrow> ('g \<Rightarrow> 's \<Rightarrow> string \<times> 's) \<Rightarrow> char option \<Rightarrow> string \<Rightarrow> 's \<Rightarrow> string \<times> 's" where
  "re_sub m f prev [] st = ([], st)"
| "re_sub m f prev (c # cs) st =
     (case m prev (c # cs) of
        None \<Rightarrow> (let (out, st') = re_sub m f (Some c) cs st in (c # out, st'))
      | Some (g, rest) \<Rightarrow>
          (let (rep, st1) = f g st in
           if length rest \<le> length cs
           then (let (out, st2) =
                       re_sub m f (Some (last (take (Suc (length cs) - length rest) (c # cs)))) rest st1
                 in (rep @ out, st2))
           else (let (out, st2) = re_sub m f (Some c) cs st1 in (rep @ c # out, st2))))"
  by pat_completeness auto
termination
  by (relation "measure (\<lambda>(m, f, prev, s, st). length s)") auto

text \<open>\<open>re.search(pattern, text)\<close> as a truth value, without and with a leading \<open>^\<close>
  under \<open>re.MULTILINE\<close> (a position is a line start at the start of the text and after
  \<open>\n\<close>).\<close>

fun re_search :: "(string \<Rightarrow> bool) \<Rightarrow> string \<Rightarrow> bool" where
  "re_search m [] = m []"
| "re_search m (c # cs) = (m (c # cs) \<or> re_search m cs)"

fun re_search_bol :: "(string \<Rightarrow> bool) \<Rightarrow> bool \<Rightarrow> string \<Rightarrow> bool" where
  "re_search_bol m bol [] = (bol \<and> m [])"
| "re_search_bol m bol (c # cs) = ((bol \<and> m (c # cs)) \<or> re_search_bol m (c = CHR 0x0A) cs)"

text \<open>\<open>open ([^stop]+) close\<close>, the shape of the code-span and emphasis patterns: after
  \<open>open\<close>, the longest run without \<open>stop\<close>, not empty, then \<open>close\<close>.\<close>

definition match_delimited :: "string \<Rightarrow> char \<Rightarrow> string \<Rightarrow> string \<Rightarrow> (string \<times> string) option" where
  "match_delimited opn stop cls s =
     (if prefix opn s then
        (let r = drop (length opn) s;
             g = takeWhile (\<lambda>x. x \<noteq> stop) r;
             r' = dropWhile (\<lambda>x. x \<noteq> stop) r
         in if g \<noteq> [] \<and> prefix cls r' then Some (g, drop (length cls) r') else None)
      else None)"

text \<open>The pattern \<^verbatim>\<open>`([^`]+)`\<close>.\<close>

definition m_code_span :: "string matcher" where
  "m_code_span prev s = match_delimited [CHR 0x60] (CHR 0x60) [CHR 0x60] s"

text \<open>The pattern \<^verbatim>\<open>\[([^\]]+)\]\(([^)]+)\)\<close>: groups (label, url).\<close>

definition m_link :: "(string \<times> string) matcher" where
  "m_link prev s =
     (case match_delimited ''['' (CHR '']'') '']('' s of
        None \<Rightarrow> None
      | Some (label, r) \<Rightarrow>
          (let url = takeWhile (\<lambda>x. x \<noteq> CHR '')'') r;
               r' = dropWhile (\<lambda>x. x \<noteq> CHR '')'') r
           in if url \<noteq> [] \<and> r' \<noteq> [] then Some ((label, url), tl r') else None))"

text \<open>The patterns \<^verbatim>\<open>\*\*([^*]+)\*\*\<close> and \<^verbatim>\<open>__([^_]+)__\<close>, for the marker \<open>mk\<close>.\<close>

definition m_strong :: "char \<Rightarrow> string matcher" where
  "m_strong mk prev s = match_delimited [mk, mk] mk [mk, mk] s"

text \<open>The patterns \<^verbatim>\<open>(?<!\*)\*([^*]+)\*(?!\*)\<close> and \<^verbatim>\<open>(?<!_)_([^_]+)_(?!_)\<close>.\<close>

definition m_em :: "char \<Rightarrow> string matcher" where
  "m_em mk prev s =
     (if prev = Some mk then None
      else (case match_delimited [mk] mk [mk] s of
              None \<Rightarrow> None
            | Some (g, rest) \<Rightarrow> if prefix [mk] rest then None else Some (g, rest)))"

section \<open>InlineProcessor\<close>

record inline_state =
  counter :: nat
  placeholders :: "(string \<times> string) list"

text \<open>\<open>store\<close>: the token of the next counter value, entered in the dictionary
  (a Python \<open>dict\<close> keeps insertion order; assigning to a present key keeps its place).\<close>

definition store :: "string \<Rightarrow> inline_state \<Rightarrow> string \<times> inline_state" where
  "store replacement st =
     (let token = ''@@MD'' @ str_of_nat (counter st) @ ''@@''
      in (token, \<lparr>counter = Suc (counter st),
                  placeholders = AList.update token replacement (placeholders st)\<rparr>))"

definition pure_repl :: "('g \<Rightarrow> string) \<Rightarrow> 'g \<Rightarrow> unit \<Rightarrow> string \<times> unit" where
  "pure_repl h g u = (h g, u)"

definition sub_strong :: "char \<Rightarrow> string \<Rightarrow> string" where
  "sub_strong mk s = fst (re_sub (m_strong mk) (pure_repl (\<lambda>g. ''<strong>'' @ g @ ''</strong>'')) None s ())"

definition sub_em :: "char \<Rightarrow> string \<Rightarrow> string" where
  "sub_em mk s = fst (re_sub (m_em mk) (pure_repl (\<lambda>g. ''<em>'' @ g @ ''</em>'')) None s ())"

definition restore :: "(string \<times> string) list \<Rightarrow> string \<Rightarrow> string" where
  "restore ps escaped =
     foldl (\<lambda>e (token, v). str_replace token v (str_replace (html_escape True token) v e)) escaped ps"

definition process_inline :: "string \<Rightarrow> string" where
  \<open>process_inline text =
     (let st0 = \<lparr>counter = 0, placeholders = []\<rparr>;
          (t1, st1) = re_sub m_code_span
                        (\<lambda>g. store (''<code>'' @ html_escape True g @ ''</code>'')) None text st0;
          (t2, st2) = re_sub m_link
                        (\<lambda>(label, url). store (''<a href="'' @ html_escape True url @ ''">''
                                                 @ html_escape True label @ ''</a>'')) None t1 st1;
          e0 = html_escape False t2;
          e1 = sub_strong (CHR ''*'') e0;
          e2 = sub_strong (CHR ''_'') e1;
          e3 = sub_em (CHR ''*'') e2;
          e4 = sub_em (CHR ''_'') e3
      in restore (placeholders st2) e4)\<close>

section \<open>BlockParser\<close>

text \<open>The patterns that \<open>re.match\<close> tries on the stripped line.  \<open>.\<close> matches
  every character but \<open>\n\<close>; \<open>(.*)\<close> is the rest of the text up to the first \<open>\n\<close>.\<close>

definition dot_star :: "string \<Rightarrow> string" where
  "dot_star s = takeWhile (\<lambda>x. x \<noteq> CHR 0x0A) s"

text \<open>\<^verbatim>\<open>^(#{1,6})\s+(.*)\<close>: group 1 cannot be shorter than the run of \<open>#\<close>, since
  white space has to follow it; so the run has one to six characters.\<close>

definition match_heading :: "string \<Rightarrow> (string \<times> string) option" where
  "match_heading s =
     (let hashes = takeWhile (\<lambda>x. x = CHR ''#'') s;
          r = dropWhile (\<lambda>x. x = CHR ''#'') s
      in if 1 \<le> length hashes \<and> length hashes \<le> 6 \<and> takeWhile is_space r \<noteq> []
         then Some (hashes, dot_star (dropWhile is_space r))
         else None)"

text \<open>\<^verbatim>\<open>^>\s?(.*)\<close>.\<close>

definition match_blockquote :: "string \<Rightarrow> string option" where
  "match_blockquote s =
     (case s of
        [] \<Rightarrow> None
      | c # r \<Rightarrow>
          if c = CHR ''>'' then
            (case r of
               [] \<Rightarrow> Some []
             | w # r' \<Rightarrow> if is_space w then Some (dot_star r') else Some (dot_star r))
          else None)"

text \<open>\<^verbatim>\<open>^[-*+]\s+(.*)\<close>.\<close>

definition match_unordered :: "string \<Rightarrow> string option" where
  "match_unordered s =
     (case s of
        [] \<Rightarrow> None
      | c # r \<Rightarrow>
          if (c = CHR ''-'' \<or> c = CHR ''*'' \<or> c = CHR ''+'') \<and> takeWhile is_space r \<noteq> []
          then Some (dot_star (dropWhile is_space r))
          else None)"

text \<open>\<^verbatim>\<open>^\d+[.)]\s+(.*)\<close>.\<close>

definition match_ordered :: "string \<Rightarrow> string option" where
  "match_ordered s =
     (let ds = takeWhile is_digit s in
      if ds = [] then None
      else (case dropWhile is_digit s of
              [] \<Rightarrow> None
            | c # r \<Rightarrow>
                if (c = CHR ''.'' \<or> c = CHR '')'') \<and> takeWhile is_space r \<noteq> []
                then Some (dot_star (dropWhile is_space r))
                else None))"

text \<open>The variables of \<open>_basic_markdown_to_html\<close> that the loop and its two local
  functions change.  The top of \<open>list_stack\<close> is its last element, as in the Python list.\<close>

record parser_state =
  html_lines :: "string list"
  in_code_block :: bool
  code_block_language :: string
  list_stack :: "string list"
  paragraph_lines :: "string list"

function close_lists :: "parser_state \<Rightarrow> parser_state" where
  "close_lists s =
     (if list_stack s \<noteq> [] then
        close_lists (s\<lparr>html_lines := html_lines s @ [''</'' @ last (list_stack s) @ ''>''],
                       list_stack := butlast (list_stack s)\<rparr>)
      else s)"
  by pat_completeness auto
termination
  by (relation "measure (\<lambda>s. length (list_stack s))") (auto simp: less_Suc_eq_le intro: diff_less)

declare close_lists.simps [simp del]

definition flush_paragraph :: "parser_state \<Rightarrow> parser_state" where
  "flush_paragraph s =
     (if paragraph_lines s \<noteq> [] then
        (let paragraph = strip (join '' '' (map strip (paragraph_lines s)));
             s' = (if paragraph \<noteq> []
                   then s\<lparr>html_lines := html_lines s @ [''<p>'' @ process_inline paragraph @ ''</p>'']\<rparr>
                   else s)
         in s'\<lparr>paragraph_lines := []\<rparr>)
      else s)"

definition emit :: "string \<Rightarrow> parser_state \<Rightarrow> parser_state" where
  "emit l s = s\<lparr>html_lines := html_lines s @ [l]\<rparr>"

text \<open>Opening a list of the given kind unless it is the top of the stack.\<close>

definition open_list :: "string \<Rightarrow> parser_state \<Rightarrow> parser_state" where
  "open_list kind s =
     (if list_stack s = [] \<or> last (list_stack s) \<noteq> kind then
        (let s1 = close_lists s;
             s2 = s1\<lparr>list_stack := list_stack s1 @ [kind]\<rparr>
         in emit (''<'' @ kind @ ''>'') s2)
      else s)"

text \<open>One iteration of the loop over the lines.\<close>

definition step :: "parser_state \<Rightarrow> string \<Rightarrow> parser_state" where
  \<open>step s raw_line =
     (let line = rstrip raw_line;
          stripped = lstrip line
      in
      if startswith stripped ''```'' then
        (if in_code_block s then
           (emit ''</code></pre>'' s)\<lparr>in_code_block := False, code_block_language := []\<rparr>
         else
           (let s1 = close_lists (flush_paragraph s);
                lang = strip (drop 3 stripped);
                class_attr = (if lang \<noteq> [] then '' class="language-'' @ html_escape True lang @ ''"''
                              else [])
            in emit (''<pre><code'' @ class_attr @ ''>'')
                 (s1\<lparr>in_code_block := True, code_block_language := lang\<rparr>)))
      else if in_code_block s then emit (html_escape True raw_line) s
      else if stripped = [] then close_lists (flush_paragraph s)
      else if stripped \<in> {''---'', ''***'', ''___''} then
        emit ''<hr />'' (close_lists (flush_paragraph s))
      else
        (case match_heading stripped of
           Some (hashes, content) \<Rightarrow>
             (let level = min (length hashes) 6
              in emit (''<h'' @ str_of_nat level @ ''>'' @ process_inline (strip content)
                       @ ''</h'' @ str_of_nat level @ ''>'')
                   (close_lists (flush_paragraph s)))
         | None \<Rightarrow>
        (case match_blockquote stripped of
           Some content \<Rightarrow>
             emit (''<blockquote>'' @ process_inline content @ ''</blockquote>'')
               (close_lists (flush_paragraph s))
         | None \<Rightarrow>
        (case match_unordered stripped of
           Some content \<Rightarrow>
             emit (''<li>'' @ process_inline (strip content) @ ''</li>'')
               (open_list ''ul'' (flush_paragraph s))
         | None \<Rightarrow>
        (case match_ordered stripped of
           Some content \<Rightarrow>
             emit (''<li>'' @ process_inline (strip content) @ ''</li>'')
               (open_list ''ol'' (flush_paragraph s))
         | None \<Rightarrow> s\<lparr>paragraph_lines := paragraph_lines s @ [stripped]\<rparr>)))))\<close>

definition initial_state :: parser_state where
  "initial_state = \<lparr>html_lines = [], in_code_block = False, code_block_language = [],
                     list_stack = [], paragraph_lines = []\<rparr>"

definition normalized_lines :: "string \<Rightarrow> string list" where
  "normalized_lines text =
     split_on (CHR 0x0A)
       (str_replace [CHR 0x0D] [CHR 0x0A] (str_replace [CHR 0x0D, CHR 0x0A] [CHR 0x0A] text))"

text \<open>What follows the loop: the last paragraph, the open lists, an open code block.\<close>

definition finish :: "parser_state \<Rightarrow> parser_state" where
  "finish s =
     (let s1 = close_lists (flush_paragraph s)
      in if in_code_block s1 then emit ''</code></pre>'' s1 else s1)"

definition to_html_lines :: "string \<Rightarrow> string list" where
  "to_html_lines text = html_lines (finish (foldl step initial_state (normalized_lines text)))"

definition basic_markdown_to_html :: "string \<Rightarrow> string" where
  "basic_markdown_to_html text = join [CHR 0x0A] (to_html_lines text)"

section \<open>Classifier\<close>

text \<open>The eight patterns of \<open>MARKDOWN_CLUES\<close>, each tried at one position.  In
  \<^verbatim>\<open>\s{0,3}x\<close> the white space before \<open>x\<close> is the whole run of white space at the
  position, so the run has at most three characters.\<close>

definition clue_heading :: "string \<Rightarrow> bool" where
  "clue_heading s =
     (let n = length (takeWhile (\<lambda>x. x = CHR ''#'') s)
      in 1 \<le> n \<and> n \<le> 6 \<and>
         (case dropWhile (\<lambda>x. x = CHR ''#'') s of [] \<Rightarrow> False | w # _ \<Rightarrow> is_space w))"

definition clue_unordered :: "string \<Rightarrow> bool" where
  "clue_unordered s =
     (length (takeWhile is_space s) \<le> 3 \<and>
      (case dropWhile is_space s of
         c # w # _ \<Rightarrow> (c = CHR ''-'' \<or> c = CHR ''*'' \<or> c = CHR ''+'') \<and> is_space w
       | _ \<Rightarrow> False))"

definition clue_ordered :: "string \<Rightarrow> bool" where
  "clue_ordered s =
     (length (takeWhile is_space s) \<le> 3 \<and>
      (let r = dropWhile is_space s in
       takeWhile is_digit r \<noteq> [] \<and>
       (case dropWhile is_digit r of
          c # w # _ \<Rightarrow> (c = CHR ''.'' \<or> c = CHR '')'') \<and> is_space w
        | _ \<Rightarrow> False)))"

definition clue_code :: "string \<Rightarrow> bool" where
  "clue_code s =
     (let n = length (takeWhile (\<lambda>x. x = CHR 0x60) s);
          r = dropWhile (\<lambda>x. x = CHR 0x60) s
      in 1 \<le> n \<and> n \<le> 3 \<and> takeWhile (\<lambda>x. x \<noteq> CHR 0x60) r \<noteq> []
         \<and> dropWhile (\<lambda>x. x \<noteq> CHR 0x60) r \<noteq> [])"

definition clue_link :: "string \<Rightarrow> bool" where
  "clue_link s = (m_link None s \<noteq> None)"

definition clue_bold :: "char \<Rightarrow> string \<Rightarrow> bool" where
  "clue_bold mk s = (m_strong mk None s \<noteq> None)"

definition clue_blockquote :: "string \<Rightarrow> bool" where
  "clue_blockquote s =
     (length (takeWhile is_space s) \<le> 3 \<and>
      (case dropWhile is_space s of
         c # w # _ \<Rightarrow> c = CHR ''>'' \<and> is_space w
       | _ \<Rightarrow> False))"

definition MARKDOWN_CLUES :: "(string \<Rightarrow> bool) list" where
  "MARKDOWN_CLUES =
     [re_search_bol clue_heading True,
      re_search_bol clue_unordered True,
      re_search_bol clue_ordered True,
      re_search clue_code,
      re_search clue_link,
      re_search (clue_bold (CHR ''*'')),
      re_search (clue_bold (CHR ''_'')),
      re_search_bol clue_blockquote True]"

definition looks_like_markdown :: "string \<Rightarrow> bool" where
  "looks_like_markdown text =
     (let stripped = strip text in
      if stripped = [] then False
      else if CHR 0x0A \<notin> set stripped \<and> length stripped < 6 then False
      else list_ex (\<lambda>clue. clue stripped) MARKDOWN_CLUES)"

section \<open>ConversionStrategy and the paste hook\<close>

text \<open>
  The \<open>markdown\<close> package is not part of the program: the module is \<open>None\<close> when the
  import failed, and otherwise \<open>markdown.markdown(text, ...)\<close> returns a string or
  raises.  \<open>PyException\<close> is an instance of \<open>Exception\<close>, the class that both
  \<open>except\<close> clauses of the program catch.
\<close>

datatype py_exception = PyException string

type_synonym markdown_engine = "string \<Rightarrow> py_exception + string"

definition convert_markdown :: "markdown_engine option \<Rightarrow> string \<Rightarrow> py_exception + string" where
  "convert_markdown markdown text =
     (case markdown of
        None \<Rightarrow> Inr (basic_markdown_to_html text)
      | Some engine \<Rightarrow>
          (case engine text of
             Inr html \<Rightarrow> Inr html
           | Inl e \<Rightarrow> Inr (basic_markdown_to_html text)))"

text \<open>A \<open>QMimeData\<close> bundle, as far as the hook reads and writes it: the rich-formatted
  and the plain-text representation, each present or not.\<close>

record mime_data =
  mime_html :: "string option"
  mime_text :: "string option"

definition has_html :: "mime_data \<Rightarrow> bool" where
  "has_html mime = (mime_html mime \<noteq> None)"

definition has_text :: "mime_data \<Rightarrow> bool" where
  "has_text mime = (mime_text mime \<noteq> None)"

definition text_of :: "mime_data \<Rightarrow> string" where
  "text_of mime = (case mime_text mime of None \<Rightarrow> [] | Some t \<Rightarrow> t)"

definition maybe_convert_markdown ::
  "markdown_engine option \<Rightarrow> mime_data option \<Rightarrow> bool \<Rightarrow> mime_data option" where
  "maybe_convert_markdown markdown mime internal =
     (if internal then mime
      else (case mime of
              None \<Rightarrow> mime
            | Some m \<Rightarrow>
                if has_html m then mime
                else if \<not> has_text m then mime
                else (let text = text_of m in
                      if \<not> looks_like_markdown text then mime
                      else (case convert_markdown markdown text of
                              Inl e \<Rightarrow> mime
                            | Inr html_text \<Rightarrow>
                                if strip html_text = [] then mime
                                else Some \<lparr>mime_html = Some html_text, mime_text = Some text\<rparr>))))"

section \<open>Reading the emitted lines\<close>

text \<open>
  The output is the list \<open>html_lines\<close>, joined by \<open>\n\<close>.  Two scans read it line by
  line.  \<open>code_scan\<close> follows the markers of code blocks: it fails (\<open>None\<close>) on an
  opening marker inside an open block and on a closing marker outside one.
  \<open>list_scan\<close> follows the markers of lists: it goes to \<open>Nested\<close> on a list opened
  inside an open list and on a closing marker that closes nothing or the wrong kind.
\<close>

definition is_code_open :: "string \<Rightarrow> bool" where
  "is_code_open l = prefix ''<pre><code'' l"

definition is_code_close :: "string \<Rightarrow> bool" where
  "is_code_close l = (l = ''</code></pre>'')"

definition code_scan :: "bool option \<Rightarrow> string \<Rightarrow> bool option" where
  "code_scan st l =
     (case st of
        None \<Rightarrow> None
      | Some opn \<Rightarrow>
          if is_code_open l then (if opn then None else Some True)
          else if is_code_close l then (if opn then Some False else None)
          else Some opn)"

datatype list_scan_state = Nested | No_list | In_list string

definition list_scan :: "list_scan_state \<Rightarrow> string \<Rightarrow> list_scan_state" where
  "list_scan st l =
     (case st of
        Nested \<Rightarrow> Nested
      | No_list \<Rightarrow>
          if l = ''<ul>'' then In_list ''ul''
          else if l = ''<ol>'' then In_list ''ol''
          else if l = ''</ul>'' \<or> l = ''</ol>'' then Nested
          else No_list
      | In_list kind \<Rightarrow>
          if l = ''<ul>'' \<or> l = ''<ol>'' then Nested
          else if l = ''</ul>'' then (if kind = ''ul'' then No_list else Nested)
          else if l = ''</ol>'' then (if kind = ''ol'' then No_list else Nested)
          else In_list kind)"

text \<open>What the scan of the output must have reached, given the list stack; and the
  emitted lines that neither scan reacts to.\<close>

definition stack_view :: "string list \<Rightarrow> list_scan_state" where
  "stack_view st = (case st of [] \<Rightarrow> No_list | [kind] \<Rightarrow> In_list kind | _ \<Rightarrow> Nested)"

definition neutral :: "string \<Rightarrow> bool" where
  "neutral l \<longleftrightarrow> \<not> is_code_open l \<and> \<not> is_code_close l
                 \<and> l \<noteq> ''<ul>'' \<and> l \<noteq> ''<ol>'' \<and> l \<noteq> ''</ul>'' \<and> l \<noteq> ''</ol>''"

definition parser_inv :: "parser_state \<Rightarrow> bool" where
  "parser_inv s \<longleftrightarrow>
     foldl code_scan (Some False) (html_lines s) = Some (in_code_block s)
     \<and> foldl list_scan No_list (html_lines s) = stack_view (list_stack s)
     \<and> (list_stack s = [] \<or> list_stack s = [''ul''] \<or> list_stack s = [''ol''])"

text \<open>The line that the loop emits for a list item, when the stripped line matches
  the pattern of an unordered or of an ordered item.\<close>

definition unordered_item :: "string \<Rightarrow> string option" where
  "unordered_item raw_line =
     map_option (\<lambda>content. ''<li>'' @ process_inline (strip content) @ ''</li>'')
       (match_unordered (lstrip (rstrip raw_line)))"

definition ordered_item :: "string \<Rightarrow> string option" where
  "ordered_item raw_line =
     map_option (\<lambda>content. ''<li>'' @ process_inline (strip content) @ ''</li>'')
       (match_ordered (lstrip (rstrip raw_line)))"











section \<open>Facts about the string primitives\<close>

lemma rstrip_append_nonspace: "\<not> is_space c \<Longrightarrow> rstrip (xs @ c # ys) = xs @ c # rstrip ys"
  by (simp add: rstrip_def dropWhile_append)

lemma rstrip_hashes: "0 < n \<Longrightarrow> rstrip (replicate n (CHR ''#'') @ rest) = replicate n (CHR ''#'') @ rstrip rest"
proof -
  assume "0 < n"
  then obtain k where n: "n = Suc k" by (cases n) auto
  have "replicate n (CHR ''#'') @ rest = replicate k (CHR ''#'') @ CHR ''#'' # rest"
    by (simp add: n replicate_app_Cons_same)
  moreover have "\<not> is_space (CHR ''#'')" by (simp add: is_space_def)
  ultimately have "rstrip (replicate n (CHR ''#'') @ rest) = replicate k (CHR ''#'') @ CHR ''#'' # rstrip rest"
    by (simp add: rstrip_append_nonspace)
  then show ?thesis by (simp add: n replicate_app_Cons_same)
qed

lemma html_escape_no_lt: "CHR ''<'' \<notin> set (html_escape q s)" "CHR ''>'' \<notin> set (html_escape q s)"
  by (induction s) (auto simp: html_escape_def escape_char_def)

lemma takeWhile_hashes:
  "takeWhile (\<lambda>x. x = CHR ''#'') (replicate n (CHR ''#'') @ r) = replicate n (CHR ''#'') @ takeWhile (\<lambda>x. x = CHR ''#'') r"
  by (induction n) auto

section \<open>Lines inside a fenced code block\<close>



section \<open>Seven or more hash characters\<close>

text \<open>
  Claim C10.  A line that starts with seven or more \<open>#\<close> is not a heading: outside
  a code block the loop only appends the stripped line to \<open>paragraph_lines\<close> and emits
  nothing; inside a code block the line is emitted escaped, as every code line is.
\<close>

theorem C10_seven_hashes_is_paragraph:
  assumes "7 \<le> n"
  shows "(\<not> in_code_block s \<longrightarrow>
            step s (replicate n (CHR ''#'') @ rest)
              = s\<lparr>paragraph_lines := paragraph_lines s @ [replicate n (CHR ''#'') @ rstrip rest]\<rparr>)
         \<and> (in_code_block s \<longrightarrow>
            step s (replicate n (CHR ''#'') @ rest)
              = s\<lparr>html_lines := html_lines s @ [html_escape True (replicate n (CHR ''#'') @ rest)]\<rparr>)"
proof -
  let ?l = "replicate n (CHR ''#'') @ rest"
  let ?st = "replicate n (CHR ''#'') @ rstrip rest"
  from assms obtain k where n: "n = Suc k" by (cases n) auto
  have r: "rstrip ?l = ?st" using assms by (simp add: rstrip_hashes)
  have hd: "?st = CHR ''#'' # replicate k (CHR ''#'') @ rstrip rest" by (simp add: n)
  have ns: "\<not> is_space (CHR ''#'')" by (simp add: is_space_def)
  have l: "lstrip ?st = ?st" by (simp add: n lstrip_def ns)
  have f: "\<not> startswith ?st ''```''" by (simp add: n startswith_def)
  have e: "?st \<noteq> []" by (simp add: n)
  have len: "7 \<le> length ?st" using assms by simp
  have hr: "?st \<notin> {''---'', ''***'', ''___''}" by (simp add: n)
  have "length (takeWhile (\<lambda>x. x = CHR ''#'') ?st) \<ge> 7"
    using assms by (simp add: takeWhile_hashes)
  then have h: "match_heading ?st = None" by (simp add: match_heading_def Let_def)
  have b: "match_blockquote ?st = None" by (simp add: match_blockquote_def n)
  have u: "match_unordered ?st = None" by (simp add: match_unordered_def n)
  have "\<not> is_digit (CHR ''#'')" by (simp add: is_digit_def)
  then have o: "match_ordered ?st = None" by (simp add: match_ordered_def n)
  have st: "lstrip (rstrip ?l) = ?st" by (simp only: r l)
  have "step s ?l =
          (if in_code_block s then s\<lparr>html_lines := html_lines s @ [html_escape True ?l]\<rparr>
           else s\<lparr>paragraph_lines := paragraph_lines s @ [?st]\<rparr>)"
    by (simp only: step_def Let_def st f e hr h b u o option.case if_False emit_def simp_thms if_True)
  then show ?thesis by simp
qed

theorem C10_witness:
  "(7::nat) \<le> 7 \<and> \<not> in_code_block initial_state
   \<and> step initial_state ''####### x'' = initial_state\<lparr>paragraph_lines := [''####### x'']\<rparr>
   \<and> to_html_lines ''####### x'' = [''<p>####### x</p>'']"
proof -
  have a: "(7::nat) \<le> 7" by simp
  have b: "\<not> in_code_block initial_state" by (simp add: initial_state_def)
  have c: "replicate 7 (CHR ''#'') @ '' x'' = ''####### x''" by code_simp
  have d: "paragraph_lines initial_state @ [replicate 7 (CHR ''#'') @ rstrip '' x''] = [''####### x'']"
    by code_simp
  have e: "to_html_lines ''####### x'' = [''<p>####### x</p>'']" by code_simp
  show ?thesis
    using C10_seven_hashes_is_paragraph [OF a, of initial_state "'' x''"] b e
    unfolding c d by simp
qed

section \<open>The fallback of the conversion\<close>

text \<open>
  Claim C6.  \<open>_convert_markdown\<close> always returns a string, and when the \<open>markdown\<close>
  package is missing or its call raises, the string is the output of
  \<open>_basic_markdown_to_html\<close> for the same text.
\<close>

theorem C6_convert_falls_back:
  "(\<exists>html. convert_markdown markdown text = Inr html)
   \<and> (markdown = None \<or> (\<exists>engine e. markdown = Some engine \<and> engine text = Inl e)
        \<longrightarrow> convert_markdown markdown text = Inr (basic_markdown_to_html text))"
  by (auto simp: convert_markdown_def split: option.splits sum.splits)

theorem C6_witness:
  "(\<exists>e. (\<lambda>t. Inl (PyException ''boom'')) ''# Title'' = (Inl e :: py_exception + string))
   \<and> convert_markdown (Some (\<lambda>t. Inl (PyException ''boom''))) ''# Title'' = Inr ''<h1>Title</h1>''"
proof -
  have a: "basic_markdown_to_html ''# Title'' = ''<h1>Title</h1>''" by code_simp
  show ?thesis
    using C6_convert_falls_back [of "Some (\<lambda>t. Inl (PyException ''boom''))" "''# Title''"]
    unfolding a by simp
qed

section \<open>The paste hook\<close>

text \<open>
  Claim C7.  For a paste that reaches the conversion (not internal, no rich-formatted
  representation, a plain text that the classifier accepts): when the converted text is
  empty or white space only, the hook returns the bundle it was given; otherwise it
  returns a new bundle with the generated HTML and the original plain text.
\<close>

theorem C7_empty_result_keeps_bundle:
  assumes "\<not> internal" and "\<not> has_html m" and "has_text m"
    and "looks_like_markdown (text_of m)"
  shows "\<exists>html_text. convert_markdown markdown (text_of m) = Inr html_text
           \<and> (strip html_text = [] \<longrightarrow> maybe_convert_markdown markdown (Some m) internal = Some m)
           \<and> (strip html_text \<noteq> [] \<longrightarrow>
                maybe_convert_markdown markdown (Some m) internal
                  = Some \<lparr>mime_html = Some html_text, mime_text = Some (text_of m)\<rparr>
                \<and> mime_text m = Some (text_of m))"
proof -
  have "\<exists>h. convert_markdown markdown (text_of m) = Inr h"
    by (simp add: convert_markdown_def split: option.splits sum.splits)
  then obtain h where h: "convert_markdown markdown (text_of m) = Inr h" ..
  have t: "mime_text m = Some (text_of m)"
    using assms(3) by (auto simp: has_text_def text_of_def)
  show ?thesis
    using assms h t by (auto simp: maybe_convert_markdown_def Let_def)
qed

theorem C7_witness:
  "\<not> False \<and> \<not> has_html \<lparr>mime_html = None, mime_text = Some ''# Hi there''\<rparr>
   \<and> has_text \<lparr>mime_html = None, mime_text = Some ''# Hi there''\<rparr>
   \<and> looks_like_markdown (text_of \<lparr>mime_html = None, mime_text = Some ''# Hi there''\<rparr>)
   \<and> maybe_convert_markdown None (Some \<lparr>mime_html = None, mime_text = Some ''# Hi there''\<rparr>) False
       = Some \<lparr>mime_html = Some ''<h1>Hi there</h1>'', mime_text = Some ''# Hi there''\<rparr>"
proof -
  let ?m = "\<lparr>mime_html = None, mime_text = Some ''# Hi there''\<rparr>"
  have a: "\<not> False" by simp
  have b: "\<not> has_html ?m" by (simp add: has_html_def)
  have c: "has_text ?m" by (simp add: has_text_def)
  have t: "text_of ?m = ''# Hi there''" by (simp add: text_of_def)
  have d: "looks_like_markdown (text_of ?m)" unfolding t by code_simp
  have e: "convert_markdown None ''# Hi there'' = Inr ''<h1>Hi there</h1>''" by code_simp
  have f: "strip ''<h1>Hi there</h1>'' \<noteq> []" by code_simp
  show ?thesis
    using C7_empty_result_keeps_bundle [OF a b c d, of None] b c d e f unfolding t by auto
qed

section \<open>The invariant of the line loop\<close>

lemma close_lists_eq:
  "close_lists s = s\<lparr>html_lines := html_lines s @ map (\<lambda>t. ''</'' @ t @ ''>'') (rev (list_stack s)),
                      list_stack := []\<rparr>"
proof (induction "list_stack s" arbitrary: s rule: rev_induct)
  case Nil
  then show ?case by (subst close_lists.simps) simp
next
  case (snoc x xs)
  let ?s' = "s\<lparr>html_lines := html_lines s @ [''</'' @ last (list_stack s) @ ''>''],
                list_stack := butlast (list_stack s)\<rparr>"
  have ls: "list_stack s = xs @ [x]" using snoc(2) by simp
  have "xs = list_stack ?s'" by (simp add: ls)
  from snoc(1)[OF this] have "close_lists ?s' = ?s'\<lparr>html_lines := html_lines ?s' @ map (\<lambda>t. ''</'' @ t @ ''>'') (rev (list_stack ?s')), list_stack := []\<rparr>" .
  moreover have "close_lists s = close_lists ?s'"
    by (subst close_lists.simps) (simp add: ls)
  ultimately show ?case by (simp add: ls)
qed

lemma flush_paragraph_fields [simp]:
  "in_code_block (flush_paragraph s) = in_code_block s"
  "list_stack (flush_paragraph s) = list_stack s"
  "code_block_language (flush_paragraph s) = code_block_language s"
  "paragraph_lines (flush_paragraph s) = []"
  by (simp_all add: flush_paragraph_def Let_def)


lemma neutral_no_lt: "CHR ''<'' \<notin> set l \<Longrightarrow> neutral l"
  by (auto simp: neutral_def is_code_open_def is_code_close_def prefix_def)

lemma neutral_escape: "neutral (html_escape q s)"
  by (simp add: neutral_no_lt html_escape_no_lt)

lemma neutral_tag:
  "d \<noteq> CHR ''p'' \<Longrightarrow> d \<noteq> CHR ''u'' \<Longrightarrow> d \<noteq> CHR ''o'' \<Longrightarrow> d \<noteq> CHR ''/'' \<Longrightarrow> neutral (CHR ''<'' # d # x)"
  "neutral (CHR ''<'' # CHR ''p'' # CHR ''>'' # x)"
  by (simp_all add: neutral_def is_code_open_def is_code_close_def)

lemma scan_neutral:
  "neutral l \<Longrightarrow> code_scan a l = a"
  "neutral l \<Longrightarrow> list_scan b l = b"
proof -
  assume n: "neutral l"
  show "code_scan a l = a"
    using n by (cases a) (simp_all add: neutral_def code_scan_def)
  show "list_scan b l = b"
    using n by (cases b) (simp_all add: neutral_def list_scan_def)
qed

lemma scan_flush:
  "foldl code_scan a (html_lines (flush_paragraph s)) = foldl code_scan a (html_lines s)"
  "foldl list_scan b (html_lines (flush_paragraph s)) = foldl list_scan b (html_lines s)"
  by (simp_all add: flush_paragraph_def Let_def scan_neutral neutral_tag)

lemma parser_inv_flush: "parser_inv s \<Longrightarrow> parser_inv (flush_paragraph s)"
  by (simp add: parser_inv_def scan_flush)

lemma emit_fields [simp]:
  "html_lines (emit l s) = html_lines s @ [l]"
  "in_code_block (emit l s) = in_code_block s"
  "list_stack (emit l s) = list_stack s"
  "paragraph_lines (emit l s) = paragraph_lines s"
  "code_block_language (emit l s) = code_block_language s"
  by (simp_all add: emit_def)

lemma close_lists_fields [simp]:
  "list_stack (close_lists s) = []"
  "in_code_block (close_lists s) = in_code_block s"
  "paragraph_lines (close_lists s) = paragraph_lines s"
  "code_block_language (close_lists s) = code_block_language s"
  by (simp_all add: close_lists_eq)

lemma scan_closer:
  "code_scan a ''</ul>'' = a" "code_scan a ''</ol>'' = a"
  "code_scan a ''<ul>'' = a" "code_scan a ''<ol>'' = a"
  "list_scan (In_list ''ul'') ''</ul>'' = No_list"
  "list_scan (In_list ''ol'') ''</ol>'' = No_list"
  "list_scan No_list ''<ul>'' = In_list ''ul''"
  "list_scan No_list ''<ol>'' = In_list ''ol''"
  by (cases a; simp add: code_scan_def is_code_open_def is_code_close_def list_scan_def)+

lemma parser_inv_close:
  assumes "parser_inv s"
  shows "parser_inv (close_lists s)"
proof -
  consider "list_stack s = []" | "list_stack s = [''ul'']" | "list_stack s = [''ol'']"
    using assms by (auto simp: parser_inv_def)
  then show ?thesis
  proof cases
    case 1
    with assms show ?thesis by (simp add: parser_inv_def close_lists_eq)
  next
    case 2
    with assms show ?thesis
      by (simp add: parser_inv_def close_lists_eq stack_view_def scan_closer)
  next
    case 3
    with assms show ?thesis
      by (simp add: parser_inv_def close_lists_eq stack_view_def scan_closer)
  qed
qed

lemma html_lines_close_empty: "list_stack s = [] \<Longrightarrow> close_lists s = s"
  by (simp add: close_lists_eq)

lemma parser_inv_emit_neutral: "parser_inv s \<Longrightarrow> neutral l \<Longrightarrow> parser_inv (emit l s)"
  by (simp add: parser_inv_def scan_neutral)

lemma open_list_fields [simp]:
  "in_code_block (open_list kind s) = in_code_block s"
  "paragraph_lines (open_list kind s) = paragraph_lines s"
  by (simp_all add: open_list_def Let_def)

lemma parser_inv_open_list:
  assumes "parser_inv s" and "kind = ''ul'' \<or> kind = ''ol''"
  shows "parser_inv (open_list kind s)"
proof (cases "list_stack s = [] \<or> last (list_stack s) \<noteq> kind")
  case False
  then show ?thesis using assms by (simp add: open_list_def)
next
  case True
  have c: "parser_inv (close_lists s)" using assms(1) by (rule parser_inv_close)
  have o: "open_list kind s = emit (''<'' @ kind @ ''>'') ((close_lists s)\<lparr>list_stack := [kind]\<rparr>)"
    using True by (simp add: open_list_def Let_def)
  from assms(2) show ?thesis
  proof
    assume "kind = ''ul''"
    then show ?thesis using c unfolding o
      by (simp add: parser_inv_def stack_view_def scan_closer)
  next
    assume "kind = ''ol''"
    then show ?thesis using c unfolding o
      by (simp add: parser_inv_def stack_view_def scan_closer)
  qed
qed

lemma parser_inv_paragraph [simp]: "parser_inv (s\<lparr>paragraph_lines := x\<rparr>) = parser_inv s"
  by (simp add: parser_inv_def)

lemma scan_fence:
  "code_scan (Some True) ''</code></pre>'' = Some False"
  "list_scan b ''</code></pre>'' = b"
  "code_scan (Some False) (''<pre><code'' @ a) = Some True"
  "list_scan b (''<pre><code'' @ a) = b"
  by (cases b; simp add: code_scan_def is_code_open_def is_code_close_def list_scan_def)+

lemma parser_inv_fence_close:
  "parser_inv s \<Longrightarrow> in_code_block s \<Longrightarrow>
   parser_inv ((emit ''</code></pre>'' s)\<lparr>in_code_block := False, code_block_language := []\<rparr>)"
  by (simp add: parser_inv_def scan_fence)

lemma parser_inv_fence_open:
  "parser_inv s \<Longrightarrow> \<not> in_code_block s \<Longrightarrow>
   parser_inv (emit (''<pre><code'' @ a) (s\<lparr>in_code_block := True, code_block_language := lang\<rparr>))"
  by (simp add: parser_inv_def scan_fence del: append.simps)

lemma parser_inv_step:
  assumes "parser_inv s"
  shows "parser_inv (step s l)"
proof -
  let ?st = "lstrip (rstrip l)"
  let ?s1 = "close_lists (flush_paragraph s)"
  have s1: "parser_inv ?s1"
    using assms by (simp add: parser_inv_flush parser_inv_close)
  have ol: "parser_inv (open_list ''ul'' (flush_paragraph s))" "parser_inv (open_list ''ol'' (flush_paragraph s))"
    using assms by (simp_all add: parser_inv_flush parser_inv_open_list)
  consider (fc) "startswith ?st ''```''" "in_code_block s"
    | (fo) "startswith ?st ''```''" "\<not> in_code_block s"
    | (code) "\<not> startswith ?st ''```''" "in_code_block s"
    | (rest) "\<not> startswith ?st ''```''" "\<not> in_code_block s"
    by blast
  then show ?thesis
  proof cases
    case fc
    then have "step s l = (emit ''</code></pre>'' s)\<lparr>in_code_block := False, code_block_language := []\<rparr>"
      by (simp add: step_def)
    then show ?thesis using parser_inv_fence_close [OF assms fc(2)] by simp
  next
    case fo
    then obtain a lang where
      "step s l = emit (''<pre><code'' @ a) (?s1\<lparr>in_code_block := True, code_block_language := lang\<rparr>)"
      by (simp add: step_def Let_def)
    moreover have "\<not> in_code_block ?s1" using fo by simp
    ultimately show ?thesis using parser_inv_fence_open [OF s1] by simp
  next
    case code
    then have "step s l = emit (html_escape True l) s" by (simp add: step_def)
    then show ?thesis using assms by (simp add: parser_inv_emit_neutral neutral_escape)
  next
    case rest
    then show ?thesis
      using assms s1 ol
      by (simp add: step_def Let_def parser_inv_emit_neutral neutral_tag
          split: option.split prod.split)
  qed
qed

lemma parser_inv_initial: "parser_inv initial_state"
  by (simp add: parser_inv_def initial_state_def stack_view_def)

lemma parser_inv_foldl: "parser_inv s \<Longrightarrow> parser_inv (foldl step s ls)"
  by (induction ls arbitrary: s) (simp_all add: parser_inv_step)

section \<open>Unterminated fences\<close>

text \<open>
  Claim C4.  In the emitted lines every opening code-block marker is followed by a
  closing marker before the next opening marker and before the end, and no closing
  marker comes without an opening one.  When the loop ends inside a code block (the
  fence was opened and never closed), the last emitted line is the closing marker.
\<close>

theorem C4_unterminated_fence_is_closed:
  "foldl code_scan (Some False) (to_html_lines text) = Some False
   \<and> (in_code_block (foldl step initial_state (normalized_lines text))
        \<longrightarrow> last (to_html_lines text) = ''</code></pre>'')"
proof -
  let ?s = "foldl step initial_state (normalized_lines text)"
  let ?s1 = "close_lists (flush_paragraph ?s)"
  have "parser_inv ?s" by (simp add: parser_inv_foldl parser_inv_initial)
  then have "parser_inv ?s1" by (simp add: parser_inv_flush parser_inv_close)
  then have c: "foldl code_scan (Some False) (html_lines ?s1) = Some (in_code_block ?s1)"
    by (simp add: parser_inv_def)
  have i: "in_code_block ?s1 = in_code_block ?s" by simp
  show ?thesis
  proof (cases "in_code_block ?s")
    case True
    then have "to_html_lines text = html_lines ?s1 @ [''</code></pre>'']"
      by (simp add: to_html_lines_def finish_def Let_def)
    then show ?thesis using c i True by (simp add: scan_fence)
  next
    case False
    then have "to_html_lines text = html_lines ?s1"
      by (simp add: to_html_lines_def finish_def Let_def)
    then show ?thesis using c i False by simp
  qed
qed

theorem C4_witness:
  "in_code_block (foldl step initial_state (normalized_lines (''```py'' @ [CHR 0x0A] @ ''x = 1'')))
   \<and> to_html_lines (''```py'' @ [CHR 0x0A] @ ''x = 1'')
       = [''<pre><code class='' @ [CHR 0x22] @ ''language-py'' @ [CHR 0x22] @ ''>'', ''x = 1'', ''</code></pre>'']
   \<and> foldl code_scan (Some False) (to_html_lines (''```py'' @ [CHR 0x0A] @ ''x = 1'')) = Some False"
proof -
  let ?t = "''```py'' @ [CHR 0x0A] @ ''x = 1''"
  have a: "in_code_block (foldl step initial_state (normalized_lines ?t))" by code_simp
  have b: "to_html_lines ?t
       = [''<pre><code class='' @ [CHR 0x22] @ ''language-py'' @ [CHR 0x22] @ ''>'', ''x = 1'', ''</code></pre>'']"
    by code_simp
  show ?thesis using C4_unterminated_fence_is_closed [of ?t] a b by simp
qed

section \<open>Lists are not nested\<close>

text \<open>
  Claim C9.  After every iteration of the loop the list stack has at most one entry,
  and in the emitted lines no list is opened while another is open: every \<open><ul>\<close>
  and \<open><ol>\<close> is closed by its own closing marker before the next list opens.
\<close>

theorem C9_lists_never_nested:
  "(\<forall>n. length (list_stack (foldl step initial_state (take n (normalized_lines text)))) \<le> 1)
   \<and> foldl list_scan No_list (to_html_lines text) = No_list"
proof -
  have "length (list_stack (foldl step initial_state (take n (normalized_lines text)))) \<le> 1" for n
  proof -
    have "parser_inv (foldl step initial_state (take n (normalized_lines text)))"
      by (simp add: parser_inv_foldl parser_inv_initial)
    then show ?thesis by (auto simp: parser_inv_def)
  qed
  moreover have "foldl list_scan No_list (to_html_lines text) = No_list"
  proof -
    let ?s = "foldl step initial_state (normalized_lines text)"
    let ?s1 = "close_lists (flush_paragraph ?s)"
    have "parser_inv ?s" by (simp add: parser_inv_foldl parser_inv_initial)
    then have "parser_inv ?s1" by (simp add: parser_inv_flush parser_inv_close)
    then have c: "foldl list_scan No_list (html_lines ?s1) = No_list"
      by (simp add: parser_inv_def stack_view_def)
    show ?thesis
      using c by (simp add: to_html_lines_def finish_def Let_def scan_fence)
  qed
  ultimately show ?thesis by blast
qed

theorem C9_witness:
  "to_html_lines (''- a'' @ [CHR 0x0A] @ ''1. b'' @ [CHR 0x0A] @ ''- c'')
     = [''<ul>'', ''<li>a</li>'', ''</ul>'', ''<ol>'', ''<li>b</li>'', ''</ol>'', ''<ul>'', ''<li>c</li>'', ''</ul>'']
   \<and> foldl list_scan No_list (to_html_lines (''- a'' @ [CHR 0x0A] @ ''1. b'' @ [CHR 0x0A] @ ''- c'')) = No_list"
proof -
  let ?t = "''- a'' @ [CHR 0x0A] @ ''1. b'' @ [CHR 0x0A] @ ''- c''"
  have b: "to_html_lines ?t
     = [''<ul>'', ''<li>a</li>'', ''</ul>'', ''<ol>'', ''<li>b</li>'', ''</ol>'', ''<ul>'', ''<li>c</li>'', ''</ul>'']"
    by code_simp
  show ?thesis using C9_lists_never_nested [of ?t] b by simp
qed

section \<open>Runs of unordered list items\<close>

lemma takeWhile_nonempty: "takeWhile P xs \<noteq> [] \<Longrightarrow> \<exists>w r. xs = w # r \<and> P w"
  by (cases xs) (auto split: if_splits)

lemma step_unordered:
  assumes "\<not> in_code_block s" and "unordered_item l = Some item"
  shows "step s l = emit item (open_list ''ul'' (flush_paragraph s))"
proof -
  let ?st = "lstrip (rstrip l)"
  from assms(2) obtain c where c: "match_unordered ?st = Some c"
    and item: "item = ''<li>'' @ process_inline (strip c) @ ''</li>''"
    by (auto simp: unordered_item_def)
  from c obtain c0 r0 where st0: "?st = c0 # r0"
    and c0: "c0 = CHR ''-'' \<or> c0 = CHR ''*'' \<or> c0 = CHR ''+''" and t: "takeWhile is_space r0 \<noteq> []"
    by (auto simp: match_unordered_def split: list.splits if_splits)
  from takeWhile_nonempty [OF t] obtain w r where "r0 = w # r" and w: "is_space w" by blast
  with st0 have st: "?st = c0 # w # r" by simp
  have w': "w \<noteq> CHR ''-''" "w \<noteq> CHR ''*''" "w \<noteq> CHR ''_''"
    using w by (auto simp: is_space_def)
  have f: "\<not> startswith ?st ''```''" using c0 by (auto simp: st startswith_def)
  have e: "?st \<noteq> []" by (simp add: st)
  have hr: "?st \<notin> {''---'', ''***'', ''___''}" using w' by (simp add: st)
  have h: "match_heading ?st = None" using c0 by (auto simp: st match_heading_def)
  have b: "match_blockquote ?st = None" using c0 by (auto simp: st match_blockquote_def)
  show ?thesis
    by (simp only: step_def Let_def f e hr h b c assms(1) item option.case if_False simp_thms)
qed

lemma step_ordered:
  assumes "\<not> in_code_block s" and "ordered_item l = Some item"
  shows "step s l = emit item (open_list ''ol'' (flush_paragraph s))"
proof -
  let ?st = "lstrip (rstrip l)"
  from assms(2) obtain c where c: "match_ordered ?st = Some c"
    and item: "item = ''<li>'' @ process_inline (strip c) @ ''</li>''"
    by (auto simp: ordered_item_def)
  from c obtain c0 r where st: "?st = c0 # r" and c0: "is_digit c0"
    by (cases ?st) (auto simp: match_ordered_def Let_def split: if_splits)
  have c0': "c0 \<noteq> CHR 0x60" "c0 \<noteq> CHR ''-''" "c0 \<noteq> CHR ''*''" "c0 \<noteq> CHR ''_''"
    "c0 \<noteq> CHR ''#''" "c0 \<noteq> CHR ''>''" "c0 \<noteq> CHR ''+''"
    using c0 by (auto simp: is_digit_def)
  have f: "\<not> startswith ?st ''```''" using c0' by (simp add: st startswith_def)
  have e: "?st \<noteq> []" by (simp add: st)
  have hr: "?st \<notin> {''---'', ''***'', ''___''}" using c0' by (simp add: st)
  have h: "match_heading ?st = None" using c0' by (simp add: st match_heading_def)
  have b: "match_blockquote ?st = None" using c0' by (simp add: st match_blockquote_def)
  have u: "match_unordered ?st = None" using c0' by (simp add: st match_unordered_def)
  show ?thesis
    by (simp only: step_def Let_def f e hr h b u c assms(1) item option.case if_False simp_thms)
qed

lemma step_blank:
  assumes "\<not> in_code_block s" and "lstrip (rstrip l) = []"
  shows "step s l = close_lists (flush_paragraph s)"
  using assms by (simp add: step_def startswith_def)

lemma flush_paragraph_empty: "paragraph_lines s = [] \<Longrightarrow> flush_paragraph s = s"
  by (simp add: flush_paragraph_def)

lemma open_list_top: "list_stack s = [kind] \<Longrightarrow> open_list kind s = s"
  by (simp add: open_list_def)

lemma open_list_new:
  "list_stack s = [] \<or> last (list_stack s) \<noteq> kind \<Longrightarrow>
   open_list kind s = (close_lists s)\<lparr>html_lines := html_lines (close_lists s) @ [''<'' @ kind @ ''>''],
                                          list_stack := [kind]\<rparr>"
  by (simp add: open_list_def Let_def emit_def del: append.simps)

lemma run_continue:
  assumes "list_stack t = [''ul'']" and "paragraph_lines t = []" and "\<not> in_code_block t"
    and "map unordered_item run = map Some items"
  shows "foldl step t run = t\<lparr>html_lines := html_lines t @ items\<rparr>"
  using assms
proof (induction run arbitrary: t items)
  case Nil
  then show ?case by simp
next
  case (Cons l run)
  from Cons.prems(4) obtain i its where items: "items = i # its"
    and i: "unordered_item l = Some i" and rest: "map unordered_item run = map Some its"
    by (cases items) auto
  have s: "step t l = t\<lparr>html_lines := html_lines t @ [i]\<rparr>"
    using Cons.prems(1-3) i
    by (simp add: step_unordered flush_paragraph_empty open_list_top emit_def)
  let ?t' = "t\<lparr>html_lines := html_lines t @ [i]\<rparr>"
  have "foldl step ?t' run = ?t'\<lparr>html_lines := html_lines ?t' @ its\<rparr>"
    using Cons.prems(1-3) rest by (intro Cons.IH) simp_all
  then show ?case by (simp add: s items)
qed


lemma unordered_item_not_marker:
  "unordered_item l = Some i \<Longrightarrow> i \<noteq> ''<ul>'' \<and> i \<noteq> ''</ul>''"
  by (auto simp: unordered_item_def)

lemma items_not_marker:
  assumes "map unordered_item run = map Some items"
  shows "''<ul>'' \<notin> set items \<and> ''</ul>'' \<notin> set items"
proof -
  have "i \<noteq> ''<ul>'' \<and> i \<noteq> ''</ul>''" if "i \<in> set items" for i
  proof -
    from that have "Some i \<in> set (map unordered_item run)" by (simp add: assms)
    then obtain l where "unordered_item l = Some i" by auto
    then show ?thesis by (rule unordered_item_not_marker)
  qed
  then show ?thesis by blast
qed

lemma run_start:
  assumes "run \<noteq> []" and "map unordered_item run = map Some items"
    and "\<not> in_code_block s" and "list_stack s = [] \<or> last (list_stack s) \<noteq> ''ul''"
  shows "foldl step s run =
           (close_lists (flush_paragraph s))
             \<lparr>html_lines := html_lines (close_lists (flush_paragraph s)) @ ''<ul>'' # items,
              list_stack := [''ul'']\<rparr>"
proof -
  let ?c = "close_lists (flush_paragraph s)"
  from assms(1,2) obtain l ls i its where run: "run = l # ls" and items: "items = i # its"
    and i: "unordered_item l = Some i" and rest: "map unordered_item ls = map Some its"
    by (cases run; cases items) auto
  have "list_stack (flush_paragraph s) = [] \<or> last (list_stack (flush_paragraph s)) \<noteq> ''ul''"
    using assms(4) by simp
  then have o: "open_list ''ul'' (flush_paragraph s) = ?c\<lparr>html_lines := html_lines ?c @ [''<ul>''], list_stack := [''ul'']\<rparr>"
    by (simp add: open_list_new)
  let ?t = "?c\<lparr>html_lines := html_lines ?c @ [''<ul>'', i], list_stack := [''ul'']\<rparr>"
  have s1: "step s l = ?t"
    using assms(3) i by (simp add: step_unordered o emit_def)
  have "foldl step ?t ls = ?t\<lparr>html_lines := html_lines ?t @ its\<rparr>"
    using assms(3) rest by (intro run_continue) simp_all
  then show ?thesis by (simp add: run s1 items)
qed

text \<open>
  A run of one or more unordered item lines, read outside a code block when no
  unordered list is open, emits (after the pending paragraph and the closing of an open
  ordered list) one \<open><ul>\<close> and then one item per line, whatever the length of the run,
  and leaves the unordered list open.  A blank line, an ordered item or the end of the
  input then emits the one \<open></ul>\<close>; no item line is itself a list marker.
\<close>

lemma unordered_run_opens_one_list:
  assumes "run \<noteq> []" and "map unordered_item run = map Some items"
    and "\<not> in_code_block s" and "list_stack s = [] \<or> last (list_stack s) \<noteq> ''ul''"
  shows "html_lines (foldl step s run)
           = html_lines (close_lists (flush_paragraph s)) @ ''<ul>'' # items
         \<and> list_stack (foldl step s run) = [''ul'']
         \<and> count_list (''<ul>'' # items @ [''</ul>'']) ''<ul>'' = 1
         \<and> count_list (''<ul>'' # items @ [''</ul>'']) ''</ul>'' = 1
         \<and> (lstrip (rstrip blank) = [] \<longrightarrow>
               html_lines (step (foldl step s run) blank)
                 = html_lines (close_lists (flush_paragraph s)) @ ''<ul>'' # items @ [''</ul>'']
               \<and> list_stack (step (foldl step s run) blank) = [])
         \<and> (ordered_item next_line = Some oitem \<longrightarrow>
               html_lines (step (foldl step s run) next_line)
                 = html_lines (close_lists (flush_paragraph s))
                   @ ''<ul>'' # items @ [''</ul>'', ''<ol>'', oitem])
         \<and> html_lines (finish (foldl step s run))
               = html_lines (close_lists (flush_paragraph s)) @ ''<ul>'' # items @ [''</ul>'']"
proof -
  let ?c = "close_lists (flush_paragraph s)"
  let ?t = "?c\<lparr>html_lines := html_lines ?c @ ''<ul>'' # items, list_stack := [''ul'']\<rparr>"
  have t: "foldl step s run = ?t" using assms by (rule run_start)
  have nc: "\<not> in_code_block ?t" using assms(3) by simp
  have pl: "paragraph_lines ?t = []" by simp
  have fl: "flush_paragraph ?t = ?t" using pl by (rule flush_paragraph_empty)
  have cl: "close_lists ?t = ?c\<lparr>html_lines := html_lines ?c @ ''<ul>'' # items @ [''</ul>'']\<rparr>"
    by (simp add: close_lists_eq)
  have m: "''<ul>'' \<notin> set items \<and> ''</ul>'' \<notin> set items"
    using assms(2) by (rule items_not_marker)
  have cnt: "count_list items ''<ul>'' = 0" "count_list items ''</ul>'' = 0"
    using m by (simp_all add: count_list_0_iff)
  have a: "html_lines (foldl step s run) = html_lines ?c @ ''<ul>'' # items"
    and b: "list_stack (foldl step s run) = [''ul'']"
    by (simp_all add: t)
  have c: "count_list (''<ul>'' # items @ [''</ul>'']) ''<ul>'' = 1"
    and d: "count_list (''<ul>'' # items @ [''</ul>'']) ''</ul>'' = 1"
    using cnt by simp_all
  have e: "html_lines (step (foldl step s run) blank) = html_lines ?c @ ''<ul>'' # items @ [''</ul>'']
           \<and> list_stack (step (foldl step s run) blank) = []"
    if "lstrip (rstrip blank) = []"
    unfolding t step_blank [OF nc that] fl cl by simp
  have f: "html_lines (step (foldl step s run) next_line)
             = html_lines ?c @ ''<ul>'' # items @ [''</ul>'', ''<ol>'', oitem]"
    if "ordered_item next_line = Some oitem"
  proof -
    have "open_list ''ol'' ?t
        = (close_lists ?t)\<lparr>html_lines := html_lines (close_lists ?t) @ [''<ol>''], list_stack := [''ol'']\<rparr>"
      using open_list_new [of ?t "''ol''"] by simp
    then show ?thesis
      unfolding t step_ordered [OF nc that] fl cl by (simp add: emit_def)
  qed
  have g: "html_lines (finish (foldl step s run)) = html_lines ?c @ ''<ul>'' # items @ [''</ul>'']"
    unfolding t finish_def Let_def fl cl using assms(3) by simp
  from a b c d e f g show ?thesis by blast
qed

text \<open>
  Claim C5.  The claim is about every contiguous run of unordered item lines.  A
  paragraph line is the one kind of line after which the loop does not call
  \<open>close_lists\<close> (outside a code block every other branch for a line that is not a
  list item does), so a
  run that follows a paragraph line that follows a run finds \<open>ul\<close> on the stack and
  opens no list of its own.  On the three lines \<open>- a\<close>, \<open>foo\<close>, \<open>- b\<close> the two runs
  share one \<open><ul>\<close> and one \<open></ul>\<close>, with the paragraph between the items.
\<close>

theorem C5_runs_split_by_paragraph_share_a_list:
  "unordered_item ''- a'' = Some ''<li>a</li>''
   \<and> unordered_item ''foo'' = None
   \<and> unordered_item ''- b'' = Some ''<li>b</li>''
   \<and> normalized_lines (''- a'' @ [CHR 0x0A] @ ''foo'' @ [CHR 0x0A] @ ''- b'') = [''- a'', ''foo'', ''- b'']
   \<and> list_stack (foldl step initial_state [''- a'', ''foo'']) = [''ul'']
   \<and> to_html_lines (''- a'' @ [CHR 0x0A] @ ''foo'' @ [CHR 0x0A] @ ''- b'')
       = [''<ul>'', ''<li>a</li>'', ''<p>foo</p>'', ''<li>b</li>'', ''</ul>'']"
  by code_simp

section \<open>The classifier on heading lines\<close>

lemma last_dropWhile: "dropWhile P xs \<noteq> [] \<Longrightarrow> last (dropWhile P xs) = last xs"
  by (induction xs) (auto split: if_splits)

lemma re_search_bol_at:
  "(xs = [] \<longrightarrow> bol) \<Longrightarrow> (xs \<noteq> [] \<longrightarrow> last xs = CHR 0x0A) \<Longrightarrow> m ys \<Longrightarrow>
   re_search_bol m bol (xs @ ys)"
proof (induction xs arbitrary: bol)
  case Nil
  then show ?case by (cases ys) simp_all
next
  case (Cons x xs)
  have "re_search_bol m (x = CHR 0x0A) (xs @ ys)"
    using Cons.prems by (intro Cons.IH) (auto split: if_splits)
  then show ?case by simp
qed

lemma clue_heading_hashes:
  assumes "1 \<le> n" and "n \<le> 6" and "is_space w"
  shows "clue_heading (replicate n (CHR ''#'') @ w # r)"
proof -
  have w: "w \<noteq> CHR ''#''" using assms(3) by (auto simp: is_space_def)
  have t: "takeWhile (\<lambda>x. x = CHR ''#'') (replicate n (CHR ''#'') @ w # r) = replicate n (CHR ''#'')"
    using w by (simp add: takeWhile_hashes)
  have d: "dropWhile (\<lambda>x. x = CHR ''#'') (replicate n (CHR ''#'') @ w # r) = w # r"
    using w by (induction n) simp_all
  show ?thesis
    unfolding clue_heading_def t d Let_def using assms by simp
qed

lemma strip_around_heading:
  assumes "0 < n" and "\<not> is_space c"
  shows "strip (pre @ replicate n (CHR ''#'') @ w # c1 @ c # c2)
           = dropWhile is_space pre @ replicate n (CHR ''#'') @ w # c1 @ c # rstrip c2"
proof -
  obtain k where n: "n = Suc k" using assms(1) by (cases n) auto
  have "rstrip ((pre @ replicate n (CHR ''#'') @ w # c1) @ c # c2)
          = (pre @ replicate n (CHR ''#'') @ w # c1) @ c # rstrip c2"
    using assms(2) by (rule rstrip_append_nonspace)
  then have "rstrip (pre @ replicate n (CHR ''#'') @ w # c1 @ c # c2)
          = (pre @ replicate n (CHR ''#'') @ w # c1) @ c # rstrip c2"
    by simp
  moreover have "\<not> is_space (CHR ''#'')" by (simp add: is_space_def)
  ultimately show ?thesis
    by (simp add: strip_def lstrip_def n dropWhile_append3)
qed

text \<open>
  Claim C2.  The claim holds with the guard of the classifier written in: a text with a
  line that starts the text or follows \<open>\n\<close> and consists of one to six \<open>#\<close>, a
  white-space character and content that is not all white space is classified as
  Markdown when the stripped text contains \<open>\n\<close> or has at least six characters.
\<close>

theorem C2_heading_line_is_markdown:
  assumes "text = pre @ replicate n (CHR ''#'') @ w # content @ post"
    and "pre = [] \<or> last pre = CHR 0x0A"
    and "1 \<le> n" and "n \<le> 6" and "is_space w"
    and "\<exists>c\<in>set content. \<not> is_space c"
    and "CHR 0x0A \<in> set (strip text) \<or> 6 \<le> length (strip text)"
  shows "looks_like_markdown text"
proof -
  from assms(6) obtain c1 c c2 where content: "content = c1 @ c # c2" and c: "\<not> is_space c"
    by (auto simp: in_set_conv_decomp)
  let ?pre = "dropWhile is_space pre"
  let ?line = "replicate n (CHR ''#'') @ w # c1 @ c # rstrip (c2 @ post)"
  have s: "strip text = ?pre @ ?line"
    using strip_around_heading [of n c pre w c1 "c2 @ post"] assms(3) c
    by (simp add: assms(1) content)
  have ne: "strip text \<noteq> []" using assms(3) by (simp add: s)
  have "?pre \<noteq> [] \<longrightarrow> last ?pre = CHR 0x0A"
    using assms(2) by (auto simp: last_dropWhile)
  moreover have "clue_heading ?line"
    using assms(3,4,5) by (rule clue_heading_hashes)
  ultimately have "re_search_bol clue_heading True (strip text)"
    unfolding s by (intro re_search_bol_at) simp_all
  then have "list_ex (\<lambda>clue. clue (strip text)) MARKDOWN_CLUES"
    by (simp add: MARKDOWN_CLUES_def)
  then show ?thesis
    using ne assms(7) by (auto simp: looks_like_markdown_def Let_def)
qed

theorem C2_witness:
  "''# Hi there'' = [] @ replicate 1 (CHR ''#'') @ CHR '' '' # ''Hi there'' @ []
   \<and> (1::nat) \<le> 1 \<and> (1::nat) \<le> 6 \<and> is_space (CHR '' '')
   \<and> (\<exists>c\<in>set ''Hi there''. \<not> is_space c)
   \<and> 6 \<le> length (strip ''# Hi there'')
   \<and> looks_like_markdown ''# Hi there''"
proof -
  have a: "''# Hi there'' = [] @ replicate 1 (CHR ''#'') @ CHR '' '' # ''Hi there'' @ []" by simp
  have b: "([]::string) = [] \<or> last ([]::string) = CHR 0x0A" by simp
  have c: "(1::nat) \<le> 1" "(1::nat) \<le> 6" by simp_all
  have d: "is_space (CHR '' '')" by (simp add: is_space_def)
  have e: "\<exists>c\<in>set ''Hi there''. \<not> is_space c" by (simp add: is_space_def)
  have f: "6 \<le> length (strip ''# Hi there'')" by code_simp
  then have g: "CHR 0x0A \<in> set (strip ''# Hi there'') \<or> 6 \<le> length (strip ''# Hi there'')" ..
  show ?thesis
    using C2_heading_line_is_markdown [OF a b c d e g] a c d e f by blast
qed

text \<open>Without the guard the claim fails: \<open># Hi\<close> is such a line, and the stripped
  text is a single line of four characters.\<close>

theorem C2_counterexample:
  "''# Hi'' = [] @ replicate 1 (CHR ''#'') @ CHR '' '' # ''Hi'' @ []
   \<and> is_space (CHR '' '') \<and> \<not> is_space (CHR ''H'')
   \<and> \<not> looks_like_markdown ''# Hi''"
proof -
  have "\<not> looks_like_markdown ''# Hi''" by code_simp
  then show ?thesis by (simp add: is_space_def)
qed

section \<open>A link on its own\<close>


lemma match_delimited_first:
  "opn = o1 # os \<Longrightarrow> x \<noteq> o1 \<Longrightarrow> match_delimited opn stop cls (x # xs) = None"
  by (simp add: match_delimited_def)























section \<open>Literal characters in paragraph text\<close>




























end
